theory Spec2Isabelle
  imports Main "HOL-Library.Word"
begin

unbundle bit_operations_syntax

section \<open>Machine types\<close>

type_synonym u8 = "8 word"
type_synonym u16 = "16 word"

section \<open>The sine approximation of stand.c\<close>

text \<open>
  \<^verbatim>\<open>uint8_t sq8(int8_t x) { x += 128; x = ((int16_t)x * x) >> 7; return ~x; }\<close>
  The parameter is a signed byte, kept as its bit pattern and read with \<open>sint\<close>.
  The product is formed in the 16-bit \<open>int\<close> of the AVR after sign extension
  (\<open>scast\<close>), shifted arithmetically, and truncated back to a byte.
\<close>

definition sq8 :: "u8 \<Rightarrow> u8" where
  "sq8 x =
     (let x1 = x + 128;
          x2 = (ucast (signed_drop_bit 7 ((scast x1 :: u16) * (scast x1 :: u16))) :: u8)
      in NOT x2)"

text \<open>
  The square helper as the specification words it, for comparison with \<open>sq8\<close>: add
  128, take the byte as unsigned, square it in 16 bits, shift right by 7, keep the low
  byte and complement it.
\<close>

definition square_approx_spec :: "u8 \<Rightarrow> u8" where
  "square_approx_spec x =
     NOT (ucast (drop_bit 7 ((ucast (x + 128) :: u16) * (ucast (x + 128) :: u16))) :: u8)"

text \<open>
  \<^verbatim>\<open>int8_t sin8(uint8_t angle) { uint8_t ret = sq8(angle << 1);
     if (angle & 128) ret = ~ret; return ret + 128; }\<close>
  The result is a signed byte, again kept as its bit pattern.
\<close>

definition sin8 :: "u8 \<Rightarrow> u8" where
  "sin8 angle =
     (let ret = sq8 (push_bit 1 angle);
          ret1 = (if angle AND 128 \<noteq> 0 then NOT ret else ret)
      in ret1 + 128)"

section \<open>The experiments of sin11.c\<close>

text \<open>
  The bit-only square: the body of the \<^verbatim>\<open>do { ... } while (--count)\<close> loop, then the
  loop itself on the 8-bit counter.
\<close>

function sq8_bit_loop :: "u8 \<Rightarrow> u8 \<Rightarrow> u8 \<Rightarrow> u8 \<Rightarrow> u8 \<Rightarrow> u8" where
  "sq8_bit_loop count out cf x w =
     (let out1 = push_bit 7 cf + drop_bit 1 out;
          out2 = (if x AND 1 \<noteq> 0 then out1 + w else out1);
          cf2 = (if x AND 1 \<noteq> 0 then (if out2 < w then 1 else 0) else cf);
          x2 = drop_bit 1 x;
          count2 = count - 1
      in if count2 \<noteq> 0 then sq8_bit_loop count2 out2 cf2 x2 w else out2)"
  by pat_completeness auto
termination
proof (relation "measure (\<lambda>(count, out, cf, x, w). unat (count - 1))")
  show "wf (measure (\<lambda>(count :: u8, out :: u8, cf :: u8, x :: u8, w :: u8). unat (count - 1)))"
    by simp
next
  fix count out cf x w :: u8 and out1 out2 cf2 x2 count2 :: u8
  assume eq: "count2 = count - 1" and nz: "count2 \<noteq> 0"
  from nz have "unat (count2 - 1) = unat count2 - 1"
    by (rule unat_minus_one)
  moreover from nz have "0 < unat count2"
    by (simp add: unat_gt_0)
  ultimately have "unat (count2 - 1) < unat count2"
    by linarith
  then show "((count2, out2, cf2, x2, w), (count, out, cf, x, w))
          \<in> measure (\<lambda>(count, out, cf, x, w). unat (count - 1))"
    unfolding eq by simp
qed

text \<open>
  \<^verbatim>\<open>sq8_bit\<close> starts the loop with \<^verbatim>\<open>count = 8\<close>, \<^verbatim>\<open>out = 0\<close>, \<^verbatim>\<open>cf = 0\<close> and
  \<^verbatim>\<open>w = ~x\<close>, and returns \<^verbatim>\<open>out + 128\<close>.
\<close>

definition sq8_bit :: "u8 \<Rightarrow> u8" where
  "sq8_bit x = sq8_bit_loop 8 0 0 x (NOT x) + 128"

text \<open>
  \<^verbatim>\<open>sq8_imul\<close> has the body of \<open>sq8\<close>, on a \<^verbatim>\<open>signed char\<close>. The square is at most
  \<open>128 * 128\<close>, so it is the same in the 16-bit \<open>int\<close> used here and in a wider one.
\<close>

definition sq8_imul :: "u8 \<Rightarrow> u8" where
  "sq8_imul x =
     (let x1 = x + 128;
          x2 = (ucast (signed_drop_bit 7 ((scast x1 :: u16) * (scast x1 :: u16))) :: u8)
      in NOT x2)"

text \<open>
  sin11.c selects the square routine with \<^verbatim>\<open>#define sq8 sq8_imul\<close>. The two sine
  functions are therefore written over the selected routine \<open>sq\<close>; the compiled ones
  instantiate it with \<open>sq8_imul\<close>.
\<close>

definition sinu8_of :: "(u8 \<Rightarrow> u8) \<Rightarrow> u8 \<Rightarrow> u8" where
  "sinu8_of sq angle =
     (if angle AND 128 \<noteq> 0 then NOT (sq (push_bit 1 angle))
      else sq (push_bit 1 angle))"

definition sin8_of :: "(u8 \<Rightarrow> u8) \<Rightarrow> u8 \<Rightarrow> u8" where
  "sin8_of sq angle =
     (let ret = sq (push_bit 1 angle);
          ret1 = (if angle AND 128 \<noteq> 0 then NOT ret else ret)
      in ret1 + 128)"

definition sinu8 :: "u8 \<Rightarrow> u8" where
  "sinu8 = sinu8_of sq8_imul"

definition sin11_sin8 :: "u8 \<Rightarrow> u8" where
  "sin11_sin8 = sin8_of sq8_imul"

section \<open>The control loop of stand.c\<close>

text \<open>
  The pulse width expression of \<^verbatim>\<open>loop()\<close>:
  \<^verbatim>\<open>1500 + ((int16_t)(p1 - 512) << 1) + (((int16_t)sin8(angle >> 8) * p3) >> 6)\<close>.
  On the AVR \<open>int\<close> has 16 bits, so every operation below is a 16-bit one: the
  subtraction is unsigned and wraps, the sine is sign-extended, the amplitude is
  zero-extended, and the right shift of the signed product is arithmetic. The sum is
  stored in the unsigned 16-bit \<open>pw\<close>.
\<close>

definition pulse_width :: "u16 \<Rightarrow> u8 \<Rightarrow> u16 \<Rightarrow> u16" where
  "pulse_width p1 p3 ang =
     1500 + push_bit 1 (p1 - 512)
          + signed_drop_bit 6 ((scast (sin8 (ucast (drop_bit 8 ang))) :: u16) * (ucast p3 :: u16))"

text \<open>
  The same expression read in unbounded integers: the value the arithmetic of the
  expression denotes before any 16-bit wrap. The shift of a negative product rounds
  towards minus infinity, as the arithmetic shift does.
\<close>

definition pw_exact :: "u16 \<Rightarrow> u8 \<Rightarrow> u16 \<Rightarrow> int" where
  "pw_exact p1 p3 ang =
     1500 + (uint p1 - 512) * 2 + (sint (sin8 (ucast (drop_bit 8 ang))) * uint p3) div 64"

text \<open>
  The machine state: the program's one variable of static storage, \<open>angle\<close>, and the
  I/O registers that \<^verbatim>\<open>loop()\<close> and \<^verbatim>\<open>setup()\<close> write.
\<close>

record mcu =
  angle :: u16
  ADMUX :: u8
  ADCSRA :: u8
  PORTB :: u8
  DDRB :: u8

text \<open>
  The bit numbers and the \<^verbatim>\<open>_BV\<close> macro come from \<^verbatim>\<open><avr/io.h>\<close>, which is not part
  of the repository: they are parameters of the model.
\<close>

record avr_io =
  BV :: "nat \<Rightarrow> u8"
  MUX0 :: nat
  MUX1 :: nat
  ADLAR :: nat
  ADSC :: nat
  ADEN :: nat
  ADPS0 :: nat
  ADPS1 :: nat
  PB0 :: nat
  DDB0 :: nat

text \<open>
  One conversion, as the program sees it: the number of times the program finds the
  busy flag \<open>ADSC\<close> still set when it polls, and what the converter then presents in
  its two data registers. That \<open>polls\<close> is a number says that the conversion ends.
\<close>

record adc_regs =
  polls :: nat
  ADCL :: u8
  ADCH :: u8

text \<open>The three conversions that one pass of the loop consumes, in order.\<close>

record adc_in =
  conv1 :: adc_regs
  conv2 :: adc_regs
  conv3 :: adc_regs

definition set_adc_channel :: "avr_io \<Rightarrow> u8 \<Rightarrow> mcu \<Rightarrow> mcu" where
  "set_adc_channel io ch s =
     (let keep = ADMUX s AND NOT (BV io (MUX1 io) OR BV io (MUX0 io)) in
      if ch = 0 then s\<lparr>ADMUX := keep OR (0 OR 0)\<rparr>
      else if ch = 1 then s\<lparr>ADMUX := keep OR (0 OR BV io (MUX0 io))\<rparr>
      else if ch = 2 then s\<lparr>ADMUX := keep OR (BV io (MUX1 io) OR 0)\<rparr>
      else if ch = 3 then s\<lparr>ADMUX := keep OR (BV io (MUX1 io) OR BV io (MUX0 io))\<rparr>
      else s)"

definition start_adc :: "avr_io \<Rightarrow> mcu \<Rightarrow> mcu" where
  "start_adc io s = s\<lparr>ADCSRA := ADCSRA s OR BV io (ADSC io)\<rparr>"

text \<open>
  The wait \<^verbatim>\<open>while (ADCSRA & _BV(ADSC));\<close> of \<^verbatim>\<open>read_adc\<close> and \<^verbatim>\<open>read_adch\<close>: each round
  polls the flag, which the converter clears when the conversion is done. The loop
  leaves with the flag clear.
\<close>

fun wait_adc :: "avr_io \<Rightarrow> nat \<Rightarrow> mcu \<Rightarrow> mcu" where
  "wait_adc io 0 s = s\<lparr>ADCSRA := ADCSRA s AND NOT (BV io (ADSC io))\<rparr>"
| "wait_adc io (Suc n) s = wait_adc io n s"

definition read_adch :: "avr_io \<Rightarrow> adc_regs \<Rightarrow> mcu \<Rightarrow> mcu \<times> u8" where
  "read_adch io r s =
     (let s1 = wait_adc io (polls r) s;
          s2 = s1\<lparr>ADMUX := ADMUX s1 OR BV io (ADLAR io)\<rparr>
      in (s2, ADCH r))"

text \<open>
  The value \<^verbatim>\<open>read_adc\<close> returns, \<^verbatim>\<open>ADCL + ((uint16_t)ADCH << 8)\<close>, in unsigned 16-bit
  arithmetic.
\<close>

definition adc_value :: "adc_regs \<Rightarrow> u16" where
  "adc_value r = ucast (ADCL r) + push_bit 8 (ucast (ADCH r) :: u16)"

definition read_adc :: "avr_io \<Rightarrow> adc_regs \<Rightarrow> mcu \<Rightarrow> mcu \<times> u16" where
  "read_adc io r s =
     (let s1 = wait_adc io (polls r) s;
          s2 = s1\<lparr>ADMUX := ADMUX s1 AND NOT (BV io (ADLAR io))\<rparr>
      in (s2, adc_value r))"

text \<open>
  \<^verbatim>\<open>delay_us\<close> spins on an empty statement for the number of rounds that
  \<^verbatim>\<open>us2loops\<close> computes from the clock frequency \<^verbatim>\<open>F_CPU\<close>. The count is a local, the
  spin ends when the count reaches zero, and nothing in the state changes: only time
  passes, which the state does not record.
\<close>

definition delay_us :: "u16 \<Rightarrow> mcu \<Rightarrow> mcu" where
  "delay_us us s = s"

text \<open>
  \<^verbatim>\<open>send_pulse\<close> raises the port bit, spins for the width in the same way, and lowers
  the bit.
\<close>

definition send_pulse :: "avr_io \<Rightarrow> nat \<Rightarrow> u16 \<Rightarrow> mcu \<Rightarrow> mcu" where
  "send_pulse io port width s =
     (let s1 = s\<lparr>PORTB := PORTB s OR BV io port\<rparr>
      in s1\<lparr>PORTB := PORTB s1 AND NOT (BV io port)\<rparr>)"

text \<open>
  One pass of \<^verbatim>\<open>loop()\<close>. It returns the new state and the width of the pulse it
  sent. The locals \<open>p1\<close>, \<open>p2\<close>, \<open>p3\<close> start at zero and are then assigned from the
  three conversions.
\<close>

definition loop :: "avr_io \<Rightarrow> adc_in \<Rightarrow> mcu \<Rightarrow> mcu \<times> u16" where
  "loop io inp s0 =
     (let p1 = (0 :: u16); p2 = (0 :: u16); p3 = (0 :: u8);
          s = set_adc_channel io 1 s0;
          s = start_adc io s;
          s = delay_us 6000 s;
          (s, p1) = read_adc io (conv1 inp) s;
          s = set_adc_channel io 2 s;
          s = start_adc io s;
          s = delay_us 6000 s;
          (s, p2) = read_adc io (conv2 inp) s;
          s = set_adc_channel io 3 s;
          s = start_adc io s;
          s = delay_us 6000 s;
          (s, p3) = read_adch io (conv3 inp) s;
          pw = pulse_width p1 p3 (angle s);
          s = s\<lparr>angle := angle s + push_bit 2 p2\<rparr>;
          s = send_pulse io (PB0 io) pw s
      in (s, pw))"

definition setup_mcu :: "avr_io \<Rightarrow> mcu \<Rightarrow> mcu" where
  "setup_mcu io s =
     s\<lparr>DDRB := BV io (DDB0 io),
       ADCSRA := BV io (ADEN io) OR BV io (ADPS1 io) OR BV io (ADPS0 io),
       ADMUX := 0\<rparr>"

text \<open>
  \<open>setup_mcu\<close> is \<^verbatim>\<open>setup()\<close>.
  \<^verbatim>\<open>main()\<close> without \<open>TEST\<close>: \<^verbatim>\<open>setup(); while (1) loop();\<close>. The program starts with
  \<^verbatim>\<open>uint16_t angle = 0\<close> and registers of unknown content \<open>regs\<close>. The loop never ends;
  \<open>run_loop\<close> is its first passes, one for each element of the list of conversions.
\<close>

definition power_on :: "mcu \<Rightarrow> mcu" where
  "power_on regs = regs\<lparr>angle := 0\<rparr>"

fun run_loop :: "avr_io \<Rightarrow> adc_in list \<Rightarrow> mcu \<Rightarrow> mcu \<times> u16 list" where
  "run_loop io [] s = (s, [])"
| "run_loop io (inp # rest) s =
     (let (s1, pw) = loop io inp s;
          (s2, pws) = run_loop io rest s1
      in (s2, pw # pws))"

definition main_run :: "avr_io \<Rightarrow> adc_in list \<Rightarrow> mcu \<Rightarrow> mcu \<times> u16 list" where
  "main_run io inps regs = run_loop io inps (setup_mcu io (power_on regs))"

text \<open>
  One instance of the parameters, for evaluating the loop on concrete states: the bit
  numbers that the ATtiny13 header gives, and \<^verbatim>\<open>_BV(n)\<close> as \<^verbatim>\<open>1 << n\<close>.
\<close>

definition io_example :: avr_io where
  "io_example = \<lparr>BV = (\<lambda>n. push_bit n 1), MUX0 = 0, MUX1 = 1, ADLAR = 5, ADSC = 6,
     ADEN = 7, ADPS0 = 0, ADPS1 = 1, PB0 = 0, DDB0 = 0\<rparr>"

section \<open>Facts about bytes\<close>

lemma unat_u8_less: "unat (a :: u8) < 256"
  using unsigned_less [of a] by simp

lemma msb8: "(a :: u8) AND 128 \<noteq> 0 \<longleftrightarrow> bit a 7"
proof -
  have "(128 :: u8) = 2 ^ 7" by simp
  then show ?thesis
    by (simp only: and_exp_eq_0_iff_not_bit) simp
qed

lemma bit7_odd: "bit (a :: u8) 7 \<longleftrightarrow> odd (unat a div 128)"
proof -
  have "bit a 7 \<longleftrightarrow> bit (unat a) 7"
    by (simp add: bit_unsigned_iff)
  also have "\<dots> \<longleftrightarrow> odd (unat a div 2 ^ 7)"
    by (rule bit_iff_odd)
  finally show ?thesis by simp
qed

lemma bit7_ge: "bit (a :: u8) 7 \<longleftrightarrow> 128 \<le> unat a"
proof (cases "unat a < 128")
  case True
  then have "unat a div 128 = 0" by simp
  with True show ?thesis by (simp add: bit7_odd)
next
  case False
  with unat_u8_less [of a] have "unat a div 128 = 1" by linarith
  with False show ?thesis by (simp add: bit7_odd)
qed

lemma bit7_flip: "bit ((a :: u8) + 128) 7 \<longleftrightarrow> \<not> bit a 7"
proof -
  have m: "unat (a + 128) = (unat a + 128) mod 256"
    by (simp add: unat_word_ariths)
  show ?thesis
  proof (cases "unat a < 128")
    case True
    then have "unat (a + 128) = unat a + 128" by (simp add: m)
    with True show ?thesis by (simp add: bit7_ge)
  next
    case False
    with unat_u8_less [of a] have "(unat a + 128) mod 256 = unat a - 128"
      by (simp add: mod_if)
    with False m unat_u8_less [of a] show ?thesis by (simp add: bit7_ge)
  qed
qed

lemma shl1_add128: "push_bit 1 ((a :: u8) + 128) = push_bit 1 a"
proof -
  have "push_bit 1 (a + 128) = push_bit 1 a + push_bit 1 (128 :: u8)"
    by (simp only: push_bit_add)
  also have "push_bit 1 (128 :: u8) = 0" by simp
  finally show ?thesis by simp
qed

lemma not_plus128: "NOT (r + 128) = NOT r + (128 :: u8)"
  by (simp add: not_eq_complement)

lemma sint8_range: "- 128 \<le> sint (x :: u8) \<and> sint x < 128"
  using sint_ge [of x] sint_lt [of x] by simp

lemma sint_wi8: "- 128 \<le> k \<Longrightarrow> k < 128 \<Longrightarrow> sint (word_of_int k :: u8) = k"
  by (simp add: sint_sbintrunc' signed_take_bit_int_eq_self)

lemma sint_wi16: "- 32768 \<le> k \<Longrightarrow> k < 32768 \<Longrightarrow> sint (word_of_int k :: u16) = k"
  by (simp add: sint_sbintrunc' signed_take_bit_int_eq_self)

lemma uint_wi16: "0 \<le> k \<Longrightarrow> k < 65536 \<Longrightarrow> uint (word_of_int k :: u16) = k"
  by (simp add: uint_word_of_int)

lemma uint8_range: "0 \<le> uint (r :: u8) \<and> uint r < 256"
  using uint_lt2p [of r] by simp

lemma div_bounds:
  fixes t :: int
  assumes "lo * d \<le> t" and "t \<le> hi * d" and "0 < d"
  shows "lo \<le> t div d \<and> t div d \<le> hi"
proof -
  from assms have "(lo * d) div d \<le> t div d" by (intro zdiv_mono1)
  moreover from assms have "t div d \<le> (hi * d) div d" by (intro zdiv_mono1)
  ultimately show ?thesis using assms(3) by simp
qed

lemma sint_NOT8: "sint (NOT (r :: u8)) = - 1 - sint r"
proof -
  have "NOT r = word_of_int (- 1 - sint r)"
    by (simp add: not_eq_complement)
  moreover have "sint (word_of_int (- 1 - sint r) :: u8) = - 1 - sint r"
    using sint8_range [of r] by (intro sint_wi8) simp_all
  ultimately show ?thesis by simp
qed

lemma unat_NOT8: "unat (NOT (r :: u8)) + unat r = 255"
proof -
  have "NOT r = 255 - r"
    by (simp add: not_eq_complement)
  also have "\<dots> = word_of_int (255 - uint r)"
    by simp
  finally have "uint (NOT r) = uint (word_of_int (255 - uint r) :: u8)"
    by simp
  also have "\<dots> = (255 - uint r) mod 256"
    by (simp only: uint_word_of_int) simp
  also have "\<dots> = 255 - uint r"
    using uint8_range [of r] by (intro mod_pos_pos_trivial; linarith)
  finally have "uint (NOT r) + uint r = 255" by simp
  then have "int (unat (NOT r) + unat r) = 255" by simp
  then show ?thesis by linarith
qed

lemma square_bound: "- 128 \<le> (s :: int) \<Longrightarrow> s < 128 \<Longrightarrow> 0 \<le> s * s \<and> s * s \<le> 16384"
proof -
  assume "- 128 \<le> s" "s < 128"
  then have a: "\<bar>s\<bar> \<le> 128" by simp
  have "s * s = \<bar>s\<bar> * \<bar>s\<bar>" by simp
  also from a have "\<dots> \<le> 128 * 128" by (intro mult_mono) simp_all
  finally show ?thesis by simp
qed

text \<open>The square routine of stand.c in exact integers: no 16-bit operation overflows.\<close>

lemma sq8_exact: "sq8 x = NOT (word_of_int ((sint (x + 128) * sint (x + 128)) div 128))"
proof -
  define s where "s = sint (x + 128)"
  define P :: u16 where "P = scast (x + 128) * scast (x + 128)"
  have r: "- 128 \<le> s \<and> s < 128" unfolding s_def by (rule sint8_range)
  then have b: "0 \<le> s * s \<and> s * s \<le> 16384" by (simp add: square_bound)
  have "(scast (x + 128) :: u16) = word_of_int s"
    unfolding s_def by (rule scast_eq)
  then have p: "P = word_of_int (s * s)"
    unfolding P_def by (simp only: wi_hom_mult)
  have sp: "sint P = s * s"
    unfolding p using b by (intro sint_wi16; linarith)
  have d: "sint (signed_drop_bit 7 P) = (s * s) div 128"
    by (simp only: sint_signed_drop_bit_eq sp drop_bit_eq_div) simp
  have q: "0 \<le> (s * s) div 128 \<and> (s * s) div 128 \<le> 128"
    using b by (intro div_bounds; linarith)
  have "uint (signed_drop_bit 7 P) = (s * s) div 128"
  proof -
    have "uint (signed_drop_bit 7 P) = sint (signed_drop_bit 7 P) mod 65536"
      by (simp add: uint_sint take_bit_eq_mod)
    also have "\<dots> = (s * s) div 128"
      unfolding d using q by (intro mod_pos_pos_trivial; linarith)
    finally show ?thesis .
  qed
  then have "(ucast (signed_drop_bit 7 P) :: u8) = word_of_int ((s * s) div 128)"
    by (simp only: ucast_eq)
  then show ?thesis
    unfolding sq8_def Let_def P_def [symmetric] s_def by simp
qed

lemma uint_wi8_eq: "uint (word_of_int k :: u8) = k mod 256"
  by (simp only: uint_word_of_int) simp

lemma uint16_range: "0 \<le> uint (r :: u16) \<and> uint r < 65536"
  using uint_lt2p [of r] by simp

lemma square_approx_spec_exact:
  "square_approx_spec x = NOT (word_of_int ((uint (x + 128) * uint (x + 128)) div 128))"
proof -
  define u where "u = uint (x + 128)"
  define P :: u16 where "P = ucast (x + 128) * ucast (x + 128)"
  have r: "0 \<le> u \<and> u < 256" unfolding u_def by (rule uint8_range)
  have b: "0 \<le> u * u \<and> u * u \<le> 255 * 255"
  proof -
    from r have "u * u \<le> 255 * 255" by (intro mult_mono) simp_all
    moreover from r have "0 \<le> u * u" by simp
    ultimately show ?thesis by simp
  qed
  have "(ucast (x + 128) :: u16) = word_of_int u"
    unfolding u_def by (rule ucast_eq)
  then have p: "P = word_of_int (u * u)"
    unfolding P_def by (simp only: wi_hom_mult)
  have up: "uint P = u * u"
    unfolding p using b by (intro uint_wi16; linarith)
  have "take_bit 16 (uint P) = uint P"
    unfolding take_bit_eq_mod using uint16_range [of P] by (intro mod_pos_pos_trivial; simp)
  then have "uint (drop_bit 7 P) = drop_bit 7 (uint P)"
    by (simp add: unsigned_drop_bit_eq)
  then have d: "uint (drop_bit 7 P) = (u * u) div 128"
    by (simp only: up drop_bit_eq_div) simp
  then have "(ucast (drop_bit 7 P) :: u8) = word_of_int ((u * u) div 128)"
    by (simp only: ucast_eq)
  then show ?thesis
    unfolding square_approx_spec_def P_def [symmetric] u_def by simp
qed

lemma neg_add128:
  assumes "sint (x :: u8) < 0"
  shows "sint (x + 128) = uint (x + 128)"
proof -
  define k where "k = sint x + 128"
  have r: "0 \<le> k \<and> k < 128"
    unfolding k_def using assms sint8_range [of x] by linarith
  have e: "x + 128 = word_of_int k"
    unfolding k_def by simp
  have "sint (word_of_int k :: u8) = k"
    using r by (intro sint_wi8; linarith)
  moreover have "uint (word_of_int k :: u8) = k"
    unfolding uint_wi8_eq using r by (intro mod_pos_pos_trivial; linarith)
  ultimately show ?thesis unfolding e by simp
qed

section \<open>The two square routines of sin11.c\<close>

text \<open>
  C1. The claim: for every byte \<open>x\<close>, \<open>sq8_bit x = sq8_imul x\<close>, and so the sine built
  on either routine is the same at every phase. The code does not do this. At
  \<open>x = 3\<close> the carry flag \<open>cf\<close> set by the second round is never cleared, because
  the rounds whose bit of \<open>x\<close> is zero leave it alone, and it is shifted into \<open>out\<close>
  in each of the six rounds that follow: the bit-only routine returns 125 where the
  multiplying one returns 133. The sines at phase 3, which square the byte 6, are 251
  and 11.
\<close>

theorem sq8_bit_differs_from_sq8_imul:
  "sq8_bit 3 = 125 \<and> sq8_imul 3 = 133 \<and>
   sin8_of sq8_bit 3 = 251 \<and> sin8_of sq8_imul 3 = 11 \<and>
   sq8_bit 0 = 128 \<and> sq8_imul 0 = 127"
  by code_simp

section \<open>The sine of stand.c\<close>

text \<open>
  C4, as the claim states it: for every signed byte \<open>x\<close>, \<open>sq8 x\<close> is the complement of
  the low byte of the square of \<open>x + 128\<close> taken as an unsigned byte, shifted right by 7.
  It fails at \<open>x = 1\<close>: the code squares \<open>129\<close> read as the signed byte \<open>-127\<close> and
  returns 129, the unsigned computation gives 125.
\<close>

theorem sq8_unsigned_square_counterexample:
  "sq8 1 \<noteq> square_approx_spec 1"
  by (simp add: sq8_def square_approx_spec_def Let_def)

text \<open>
  C4, amended: for every signed byte \<open>x\<close>, \<open>sq8 x\<close> is the complement of the low byte of
  the following: take \<open>x + 128\<close> wrapped to a signed byte in \<open>[-128, 127]\<close>, square it
  with a signed widening multiply, and shift the result right by 7. No 16-bit step
  overflows, so the square and the shift are the exact ones. For negative \<open>x\<close>, where
  \<open>x + 128\<close> is the same number signed or unsigned, this is the unsigned computation of
  the specification.
\<close>

theorem sq8_signed_square:
  "sq8 x = NOT (word_of_int ((sint (x + 128) * sint (x + 128)) div 128)) \<and>
   (sint x < 0 \<longrightarrow> sq8 x = square_approx_spec x)"
  by (simp add: sq8_exact square_approx_spec_exact neg_add128)

theorem sq8_signed_square_witness:
  "sint (255 :: u8) < 0 \<and> sq8 255 = square_approx_spec 255"
proof -
  have n: "sint (255 :: u8) < 0" by simp
  with sq8_signed_square [of 255] show ?thesis by blast
qed

text \<open>
  C3, as the claim states it: \<open>sin8 0 = 0\<close>, \<open>sin8 64 = 127\<close>, \<open>sin8 128 = 0\<close> and
  \<open>sin8 192\<close> is \<open>-127\<close> or \<open>-128\<close>, as signed bytes. It fails at phase 0, where
  the code returns \<open>-1\<close>.
\<close>

theorem sin8_landmarks_counterexample:
  "\<not> (sint (sin8 0) = 0 \<and> sint (sin8 64) = 127 \<and> sint (sin8 128) = 0 \<and>
      (sint (sin8 192) = - 127 \<or> sint (sin8 192) = - 128))"
  by (simp add: sin8_def sq8_def Let_def)

text \<open>
  C3, amended: the landmarks of the zero-centred sine are \<open>sin8 0 = -1\<close>,
  \<open>sin8 64 = 127\<close>, \<open>sin8 128 = 0\<close> and \<open>sin8 192 = -128\<close>, as signed bytes.
\<close>

theorem sin8_landmarks:
  "sint (sin8 0) = - 1 \<and> sint (sin8 64) = 127 \<and> sint (sin8 128) = 0 \<and>
   sint (sin8 192) = - 128"
  by (simp add: sin8_def sq8_def Let_def)

text \<open>
  C10. Half a period further the sine is the bitwise complement of its value: for every
  phase \<open>a\<close>, \<open>sin8 (a + 128)\<close>, the addition wrapping at 256, is \<open>NOT (sin8 a)\<close>. As
  signed bytes that is \<open>- 1 - sin8 a\<close>, and as unsigned bytes the two values add up
  to 255.
\<close>

theorem sin8_half_period:
  "sin8 (a + 128) = NOT (sin8 a) \<and>
   sint (sin8 (a + 128)) = - 1 - sint (sin8 a) \<and>
   unat (sin8 (a + 128)) + unat (sin8 a) = 255"
proof -
  have c: "sin8 (a + 128) = NOT (sin8 a)"
  proof (cases "bit a 7")
    case True
    then show ?thesis
      unfolding sin8_def Let_def shl1_add128 msb8 bit7_flip
      by (simp only: if_True if_False not_plus128 simp_thms bit.double_compl)
  next
    case False
    then show ?thesis
      unfolding sin8_def Let_def shl1_add128 msb8 bit7_flip
      by (simp only: if_True if_False not_plus128 simp_thms bit.double_compl)
  qed
  have s: "sint (NOT (sin8 a)) = - 1 - sint (sin8 a)"
    by (rule sint_NOT8)
  have u: "unat (NOT (sin8 a)) + unat (sin8 a) = 255"
    by (rule unat_NOT8)
  from c s u show ?thesis by simp
qed

section \<open>The two sines of sin11.c\<close>

text \<open>
  C7. For every phase \<open>a\<close> the 128-centred sine is the zero-centred sine plus 128 with
  the sum wrapping at 256: \<open>sinu8 a = sin11_sin8 a + 128\<close> on bytes, that is
  \<open>(sin8(a) + 128) mod 256\<close> whether the zero-centred value is read signed or
  unsigned.
\<close>

theorem sinu8_is_sin8_plus_128:
  "sinu8 a = sin11_sin8 a + 128 \<and>
   uint (sinu8 a) = (sint (sin11_sin8 a) + 128) mod 256 \<and>
   unat (sinu8 a) = (unat (sin11_sin8 a) + 128) mod 256"
proof -
  have w: "sinu8 a = sin11_sin8 a + 128"
    by (simp add: sinu8_def sin11_sin8_def sinu8_of_def sin8_of_def Let_def)
  have "uint (sin11_sin8 a + 128) = (sint (sin11_sin8 a) + 128) mod 256"
  proof -
    have "sin11_sin8 a + 128 = word_of_int (sint (sin11_sin8 a) + 128)"
      by simp
    then have "uint (sin11_sin8 a + 128) = uint (word_of_int (sint (sin11_sin8 a) + 128) :: u8)"
      by simp
    also have "\<dots> = (sint (sin11_sin8 a) + 128) mod 256"
      by (simp only: uint_word_of_int) simp
    finally show ?thesis .
  qed
  moreover have "unat (sin11_sin8 a + 128) = (unat (sin11_sin8 a) + 128) mod 256"
    by (simp add: unat_word_ariths)
  ultimately show ?thesis using w by simp
qed

section \<open>One pass of the loop\<close>

text \<open>What one pass of the loop does to the phase, which pulse it sends, and what it writes.\<close>

lemma wait_adc_eq:
  "wait_adc io n s = s\<lparr>ADCSRA := ADCSRA s AND NOT (BV io (ADSC io))\<rparr>"
  by (induction n) simp_all

lemma loop_angle:
  "angle (fst (loop io inp s)) = angle s + push_bit 2 (adc_value (conv2 inp))"
  by (simp add: loop_def Let_def read_adc_def read_adch_def send_pulse_def delay_us_def
      start_adc_def set_adc_channel_def wait_adc_eq)

lemma loop_pw:
  "snd (loop io inp s) = pulse_width (adc_value (conv1 inp)) (ADCH (conv3 inp)) (angle s)"
  by (simp add: loop_def Let_def read_adc_def read_adch_def send_pulse_def delay_us_def
      start_adc_def set_adc_channel_def wait_adc_eq)

lemma loop_frame:
  "fst (loop io inp s) =
     s\<lparr>angle := angle s + push_bit 2 (adc_value (conv2 inp)),
       ADMUX := ADMUX (fst (loop io inp s)),
       ADCSRA := ADCSRA (fst (loop io inp s)),
       PORTB := PORTB (fst (loop io inp s))\<rparr>"
  by (simp add: loop_def Let_def read_adc_def read_adch_def send_pulse_def delay_us_def
      start_adc_def set_adc_channel_def wait_adc_eq)

section \<open>The pulse width\<close>

text \<open>
  The 16-bit expression of \<^verbatim>\<open>loop()\<close> against its reading in unbounded integers: the
  product of the sine and the amplitude fits the signed 16-bit \<open>int\<close>, and so does the
  sum when the offset sample has ten bits.
\<close>

lemma prod_bound:
  fixes s a :: int
  assumes "- 128 \<le> s" "s < 128" "0 \<le> a" "a < 256"
  shows "- 32640 \<le> s * a \<and> s * a \<le> 32385"
proof (cases "0 \<le> s")
  case True
  with assms have "s * a \<le> 127 * 255" by (intro mult_mono) simp_all
  moreover from True assms have "0 \<le> s * a" by simp
  ultimately show ?thesis by simp
next
  case False
  with assms have "(- s) * a \<le> 128 * 255" by (intro mult_mono) simp_all
  moreover from False assms have "s * a \<le> 0" by (simp add: mult_le_0_iff)
  ultimately show ?thesis by simp
qed

lemma swing_exact:
  fixes v p3 :: u8
  defines "t \<equiv> (sint v * uint p3) div 64"
  shows "signed_drop_bit 6 ((scast v :: u16) * (ucast p3 :: u16)) = word_of_int t
         \<and> - 510 \<le> t \<and> t \<le> 506"
proof -
  define m where "m = sint v * uint p3"
  define Q :: u16 where "Q = scast v * ucast p3"
  have b: "- 32640 \<le> m \<and> m \<le> 32385"
    unfolding m_def using sint8_range [of v] uint8_range [of p3] by (intro prod_bound; linarith)
  have "(scast v :: u16) = word_of_int (sint v)" by (rule scast_eq)
  moreover have "(ucast p3 :: u16) = word_of_int (uint p3)" by (rule ucast_eq)
  ultimately have q: "Q = word_of_int m"
    unfolding Q_def m_def by (simp only: wi_hom_mult)
  have sq: "sint Q = m"
    unfolding q using b by (intro sint_wi16; linarith)
  have d: "sint (signed_drop_bit 6 Q) = m div 64"
    by (simp only: sint_signed_drop_bit_eq sq drop_bit_eq_div) simp
  have lo: "- 510 \<le> m div 64"
  proof -
    from b have "(- 32640) div 64 \<le> m div 64" by (intro zdiv_mono1; linarith)
    then show ?thesis by simp
  qed
  have hi: "m div 64 \<le> 506"
  proof -
    from b have "m div 64 \<le> 32385 div 64" by (intro zdiv_mono1; linarith)
    then show ?thesis by simp
  qed
  have "sint (word_of_int (m div 64) :: u16) = m div 64"
    using lo hi by (intro sint_wi16; linarith)
  with d have "sint (signed_drop_bit 6 Q) = sint (word_of_int (m div 64) :: u16)"
    by simp
  then have "signed_drop_bit 6 Q = word_of_int (m div 64)"
    by (rule signed_word_eqI)
  with lo hi show ?thesis
    unfolding t_def Q_def m_def by simp
qed

lemmas swing_word = swing_exact [THEN conjunct1]
lemmas swing_lo = swing_exact [THEN conjunct2, THEN conjunct1]
lemmas swing_hi = swing_exact [THEN conjunct2, THEN conjunct2]

lemma pulse_width_word:
  "pulse_width p1 p3 ang = word_of_int (pw_exact p1 p3 ang)"
proof -
  have "push_bit 1 (p1 - 512) = (word_of_int ((uint p1 - 512) * 2) :: u16)"
    by (simp add: push_bit_eq_mult)
  then show ?thesis
    unfolding pulse_width_def pw_exact_def
    by (simp only: swing_word) simp
qed

lemma pw_exact_range:
  assumes "uint p1 \<le> 1023"
  shows "- 34 \<le> pw_exact p1 p3 ang \<and> pw_exact p1 p3 ang \<le> 3028"
proof -
  define t where "t = (sint (sin8 (ucast (drop_bit 8 ang))) * uint p3) div 64"
  have "- 510 \<le> t" and "t \<le> 506"
    unfolding t_def by (rule swing_lo, rule swing_hi)
  moreover have "pw_exact p1 p3 ang = 1500 + (uint p1 - 512) * 2 + t"
    unfolding pw_exact_def t_def ..
  moreover have "\<And>u :: int. - 510 \<le> t \<Longrightarrow> t \<le> 506 \<Longrightarrow> 0 \<le> u \<Longrightarrow> u \<le> 1023 \<Longrightarrow>
      - 34 \<le> 1500 + (u - 512) * 2 + t \<and> 1500 + (u - 512) * 2 + t \<le> 3028"
    by simp
  ultimately show ?thesis
    using assms uint_ge_0 [of p1] by metis
qed

lemma pw_exact_nonneg:
  assumes "17 \<le> uint p1"
  shows "0 \<le> pw_exact p1 p3 ang"
proof -
  define t where "t = (sint (sin8 (ucast (drop_bit 8 ang))) * uint p3) div 64"
  have "- 510 \<le> t"
    unfolding t_def by (rule swing_lo)
  moreover have "pw_exact p1 p3 ang = 1500 + (uint p1 - 512) * 2 + t"
    unfolding pw_exact_def t_def ..
  ultimately show ?thesis
    using assms by simp
qed

lemma pulse_width_sint:
  assumes "uint p1 \<le> 1023"
  shows "sint (pulse_width p1 p3 ang) = pw_exact p1 p3 ang"
  unfolding pulse_width_word
  using pw_exact_range [OF assms, of p3 ang] by (intro sint_wi16; linarith)

lemma pulse_width_uint:
  assumes "uint p1 \<le> 1023" and "0 \<le> pw_exact p1 p3 ang"
  shows "uint (pulse_width p1 p3 ang) = pw_exact p1 p3 ang"
  unfolding pulse_width_word
  using pw_exact_range [OF assms(1), of p3 ang] assms(2) by (intro uint_wi16; linarith)

text \<open>
  C2, as the claim states it: for every offset sample in \<open>[0, 1023]\<close>, every amplitude
  sample and every phase, the exact value of the pulse width expression is never below
  0, so the unsigned 16-bit \<open>pw\<close> never wraps, and it stays in the range of the servo.
  It fails with the offset sample 0, the amplitude sample 255 and the phase \<open>0xC000\<close>,
  whose sine is \<open>-128\<close>: the exact value is \<open>1500 - 1024 - 510 = -34\<close>, which \<open>pw\<close> holds
  as 65502.
\<close>

theorem pulse_width_wraps_counterexample:
  "uint (0 :: u16) \<le> 1023 \<and> pw_exact 0 255 0xC000 = - 34 \<and> pulse_width 0 255 0xC000 = 65502"
  by (simp add: pw_exact_def pulse_width_def sin8_def sq8_def Let_def)

text \<open>
  C2, amended: for every offset sample \<open>p1\<close> in \<open>[0, 1023]\<close>, every amplitude sample \<open>p3\<close>
  in \<open>[0, 255]\<close> and every phase, the exact value of the pulse width expression lies in
  \<open>[-34, 3028]\<close> and is what the signed 16-bit arithmetic computes, so it never exceeds
  \<open>2^16 - 1\<close>. When moreover \<open>p1 \<ge> 17\<close> the exact value is not negative and the unsigned
  16-bit \<open>pw\<close> holds it without wrapping. The code enforces no narrower range.
\<close>

theorem pulse_width_range:
  assumes "uint p1 \<le> 1023"
  shows "- 34 \<le> pw_exact p1 p3 ang \<and> pw_exact p1 p3 ang \<le> 3028 \<and>
         sint (pulse_width p1 p3 ang) = pw_exact p1 p3 ang \<and>
         (17 \<le> uint p1 \<longrightarrow>
            0 \<le> pw_exact p1 p3 ang \<and> uint (pulse_width p1 p3 ang) = pw_exact p1 p3 ang)"
  using pw_exact_range [OF assms, of p3 ang] pulse_width_sint [OF assms, of p3 ang]
    pw_exact_nonneg [of p1 p3 ang] pulse_width_uint [OF assms, of p3 ang]
  by blast

theorem pulse_width_range_witness:
  "uint (17 :: u16) \<le> 1023 \<and> 17 \<le> uint (17 :: u16) \<and>
   0 \<le> pw_exact 17 255 0xC000 \<and>
   uint (pulse_width 17 255 0xC000) = pw_exact 17 255 0xC000"
proof -
  have h: "uint (17 :: u16) \<le> 1023" by simp
  have g: "17 \<le> uint (17 :: u16)" by simp
  from pulse_width_range [OF h, of 255 "0xC000"] g h show ?thesis by blast
qed

text \<open>
  C5. With the offset sample 512 and the amplitude sample 0 the pulse width is 1500 at
  every phase, as a 16-bit value and as an exact integer. So is the pulse that \<^verbatim>\<open>loop()\<close>
  sends when the converter presents 512 for the offset (\<open>ADCH = 2\<close>, \<open>ADCL = 0\<close>) and 0
  for the amplitude, whatever the speed sample and the state are.
\<close>

theorem pulse_width_center:
  "pulse_width 512 0 ang = 1500 \<and> pw_exact 512 0 ang = 1500 \<and>
   snd (loop io \<lparr>conv1 = \<lparr>polls = n1, ADCL = 0, ADCH = 2\<rparr>, conv2 = c2, conv3 = \<lparr>polls = n3, ADCL = l3, ADCH = 0\<rparr>\<rparr> s)
     = 1500"
proof -
  have v: "adc_value \<lparr>polls = n1, ADCL = 0, ADCH = 2\<rparr> = 512"
    by (simp add: adc_value_def)
  have c: "pulse_width 512 0 (angle s) = 1500" for s
    by (simp add: pulse_width_def)
  have "pulse_width 512 0 ang = 1500 \<and> pw_exact 512 0 ang = 1500"
    by (simp add: pulse_width_def pw_exact_def)
  then show ?thesis
    by (simp add: loop_pw v c)
qed

text \<open>
  C6. With the offset sample 512 and the amplitude sample 255 the pulse width lies in
  \<open>[990, 2006]\<close> at every phase, and the unsigned 16-bit \<open>pw\<close> equals the exact value of
  the expression: nothing wraps. Both ends are reached, 990 at the phase \<open>0xC000\<close> and
  2006 at the phase \<open>0x4000\<close>. This is the pulse that \<^verbatim>\<open>loop()\<close> sends when the converter
  presents 512 for the offset and 255 for the amplitude.
\<close>

theorem pulse_width_full_amplitude:
  "990 \<le> uint (pulse_width 512 255 ang) \<and> uint (pulse_width 512 255 ang) \<le> 2006 \<and>
   uint (pulse_width 512 255 ang) = pw_exact 512 255 ang \<and>
   pulse_width 512 255 0xC000 = 990 \<and> pulse_width 512 255 0x4000 = 2006 \<and>
   snd (loop io \<lparr>conv1 = \<lparr>polls = n1, ADCL = 0, ADCH = 2\<rparr>, conv2 = c2, conv3 = \<lparr>polls = n3, ADCL = l3, ADCH = 255\<rparr>\<rparr> s)
     = pulse_width 512 255 (angle s)"
proof -
  define t where "t = (sint (sin8 (ucast (drop_bit 8 ang))) * uint (255 :: u8)) div 64"
  have b: "- 510 \<le> t" "t \<le> 506"
    unfolding t_def by (rule swing_lo, rule swing_hi)
  have e: "pw_exact 512 255 ang = 1500 + t"
    unfolding pw_exact_def t_def by simp
  have h: "uint (512 :: u16) \<le> 1023" by simp
  from b e have n: "0 \<le> pw_exact 512 255 ang" by simp
  have u: "uint (pulse_width 512 255 ang) = pw_exact 512 255 ang"
    using h n by (rule pulse_width_uint)
  have c: "pulse_width 512 255 0xC000 = 990 \<and> pulse_width 512 255 0x4000 = 2006"
    by (simp add: pulse_width_def sin8_def sq8_def Let_def)
  have v: "adc_value \<lparr>polls = n1, ADCL = 0, ADCH = 2\<rparr> = 512"
    by (simp add: adc_value_def)
  have l: "snd (loop io \<lparr>conv1 = \<lparr>polls = n1, ADCL = 0, ADCH = 2\<rparr>, conv2 = c2,
      conv3 = \<lparr>polls = n3, ADCL = l3, ADCH = 255\<rparr>\<rparr> s) = pulse_width 512 255 (angle s)"
    by (simp add: loop_pw v)
  from b e u c l show ?thesis by simp
qed

section \<open>The control loop\<close>

lemma run_loop_angle:
  "\<forall>inp \<in> set inps. adc_value (conv2 inp) = p2 \<Longrightarrow>
   angle (fst (run_loop io inps s)) = angle s + of_nat (length inps) * push_bit 2 p2"
proof (induction inps arbitrary: s)
  case Nil
  then show ?case by simp
next
  case (Cons inp rest)
  have "angle (fst (run_loop io (inp # rest) s)) = angle (fst (run_loop io rest (fst (loop io inp s))))"
    by (simp add: split_beta Let_def)
  also have "\<dots> = angle (fst (loop io inp s)) + of_nat (length rest) * push_bit 2 p2"
    using Cons by simp
  also have "\<dots> = angle s + of_nat (length (inp # rest)) * push_bit 2 p2"
    using Cons.prems by (simp add: loop_angle distrib_right)
  finally show ?case .
qed

lemma unat_accumulate:
  "unat ((a :: u16) + of_nat n * k) = (unat a + n * unat k) mod 2 ^ 16"
proof -
  have "unat (a + of_nat n * k) = (unat a + unat (of_nat n * k :: u16)) mod 2 ^ 16"
    by (simp add: unat_word_ariths)
  also have "unat (of_nat n * k :: u16) = (n mod 2 ^ 16 * unat k) mod 2 ^ 16"
    by (simp add: unat_word_ariths unat_of_nat)
  also have "(unat a + (n mod 2 ^ 16 * unat k) mod 2 ^ 16) mod 2 ^ 16 = (unat a + n * unat k) mod 2 ^ 16"
    by (simp add: mod_simps)
  finally show ?thesis .
qed

text \<open>
  C8. Starting from any 16-bit phase, passes of the loop that all read the same speed
  sample \<open>p2\<close> add \<open>k = p2 << 2\<close> each: after \<open>n\<close> passes the phase is the starting phase plus
  \<open>n * k\<close>, taken modulo \<open>2^16\<close>, whatever the other samples were.
\<close>

theorem phase_accumulation:
  assumes "\<forall>inp \<in> set inps. adc_value (conv2 inp) = p2"
  shows "angle (fst (run_loop io inps s)) = angle s + of_nat (length inps) * push_bit 2 p2 \<and>
         unat (angle (fst (run_loop io inps s)))
           = (unat (angle s) + length inps * unat (push_bit 2 p2 :: u16)) mod 2 ^ 16"
  using run_loop_angle [OF assms, of io s] by (simp only: unat_accumulate simp_thms)

theorem phase_accumulation_witness:
  "adc_value (conv2 \<lparr>conv1 = \<lparr>polls = 3, ADCL = 0, ADCH = 2\<rparr>, conv2 = \<lparr>polls = 3, ADCL = 255, ADCH = 3\<rparr>,
      conv3 = \<lparr>polls = 3, ADCL = 0, ADCH = 0\<rparr>\<rparr>) = 1023 \<and>
   adc_value (conv2 \<lparr>conv1 = \<lparr>polls = 3, ADCL = 7, ADCH = 1\<rparr>, conv2 = \<lparr>polls = 3, ADCL = 255, ADCH = 3\<rparr>,
      conv3 = \<lparr>polls = 3, ADCL = 0, ADCH = 200\<rparr>\<rparr>) = 1023 \<and>
   angle (fst (run_loop io_example
      [\<lparr>conv1 = \<lparr>polls = 3, ADCL = 0, ADCH = 2\<rparr>, conv2 = \<lparr>polls = 3, ADCL = 255, ADCH = 3\<rparr>,
          conv3 = \<lparr>polls = 3, ADCL = 0, ADCH = 0\<rparr>\<rparr>,
       \<lparr>conv1 = \<lparr>polls = 3, ADCL = 7, ADCH = 1\<rparr>, conv2 = \<lparr>polls = 3, ADCL = 255, ADCH = 3\<rparr>,
          conv3 = \<lparr>polls = 3, ADCL = 0, ADCH = 200\<rparr>\<rparr>]
      \<lparr>angle = 0xF000, ADMUX = 0, ADCSRA = 0x83, PORTB = 0, DDRB = 1\<rparr>)) = 4088"
proof -
  let ?i1 = "\<lparr>conv1 = \<lparr>polls = 3, ADCL = 0, ADCH = 2\<rparr>, conv2 = \<lparr>polls = 3, ADCL = 255, ADCH = 3\<rparr>,
      conv3 = \<lparr>polls = 3, ADCL = 0, ADCH = 0\<rparr>\<rparr>"
  let ?i2 = "\<lparr>conv1 = \<lparr>polls = 3, ADCL = 7, ADCH = 1\<rparr>, conv2 = \<lparr>polls = 3, ADCL = 255, ADCH = 3\<rparr>,
      conv3 = \<lparr>polls = 3, ADCL = 0, ADCH = 200\<rparr>\<rparr>"
  let ?s = "\<lparr>angle = 0xF000, ADMUX = 0, ADCSRA = 0x83, PORTB = 0, DDRB = 1\<rparr>"
  have v1: "adc_value (conv2 ?i1) = 1023"
    by (simp add: adc_value_def)
  have v2: "adc_value (conv2 ?i2) = 1023"
    by (simp add: adc_value_def)
  from v1 v2 have h: "\<forall>inp \<in> set [?i1, ?i2]. adc_value (conv2 inp) = 1023"
    by simp
  have "angle (fst (run_loop io_example [?i1, ?i2] ?s))
      = angle ?s + of_nat (length [?i1, ?i2]) * push_bit 2 1023"
    using phase_accumulation [OF h, of io_example ?s] by (rule conjunct1)
  also have "\<dots> = 4088"
    by simp
  finally show ?thesis
    using v1 v2 by (intro conjI)
qed

text \<open>
  C9. The phase accumulator \<open>angle\<close> is the only variable of the program that lives from
  one pass of the loop to the next. It is zero at start-up and \<^verbatim>\<open>setup()\<close> leaves it zero.
  One pass adds the speed increment to it once; the pulse it sends is computed from the
  phase at entry and from the samples of this pass alone; apart from \<open>angle\<close> it writes
  only the I/O registers \<open>ADMUX\<close>, \<open>ADCSRA\<close> and \<open>PORTB\<close>, which the collaborators use to
  select a channel, start a conversion and raise the output line. Two states with the
  same \<open>angle\<close> therefore give the same pulse and the same next \<open>angle\<close>, whatever their
  registers hold.
\<close>

theorem loop_carries_only_angle:
  "angle (power_on regs) = 0 \<and> angle (setup_mcu io (power_on regs)) = 0 \<and>
   angle (fst (loop io inp s)) = angle s + push_bit 2 (adc_value (conv2 inp)) \<and>
   snd (loop io inp s) = pulse_width (adc_value (conv1 inp)) (ADCH (conv3 inp)) (angle s) \<and>
   (\<exists>m c p. fst (loop io inp s) =
      s\<lparr>angle := angle s + push_bit 2 (adc_value (conv2 inp)),
        ADMUX := m, ADCSRA := c, PORTB := p\<rparr>) \<and>
   (\<forall>s'. angle s' = angle s \<longrightarrow>
      snd (loop io inp s') = snd (loop io inp s) \<and>
      angle (fst (loop io inp s')) = angle (fst (loop io inp s)))"
proof -
  have a: "angle (power_on regs) = 0"
    by (simp add: power_on_def)
  have b: "angle (setup_mcu io (power_on regs)) = 0"
    by (simp add: power_on_def setup_mcu_def)
  have f: "\<exists>m c p. fst (loop io inp s) =
      s\<lparr>angle := angle s + push_bit 2 (adc_value (conv2 inp)),
        ADMUX := m, ADCSRA := c, PORTB := p\<rparr>"
    by (intro exI) (rule loop_frame)
  have n: "\<forall>s'. angle s' = angle s \<longrightarrow>
      snd (loop io inp s') = snd (loop io inp s) \<and>
      angle (fst (loop io inp s')) = angle (fst (loop io inp s))"
    by (simp add: loop_pw loop_angle)
  show ?thesis
    by (intro conjI) (rule a, rule b, rule loop_angle, rule loop_pw, rule f, rule n)
qed

theorem loop_carries_only_angle_witness:
  "angle \<lparr>angle = 0x4000, ADMUX = 0x23, ADCSRA = 0x83, PORTB = 0, DDRB = 1\<rparr>
     = angle \<lparr>angle = 0x4000, ADMUX = 0, ADCSRA = 0xC3, PORTB = 1, DDRB = 1\<rparr> \<and>
   snd (loop io_example \<lparr>conv1 = \<lparr>polls = 3, ADCL = 0, ADCH = 2\<rparr>, conv2 = \<lparr>polls = 3, ADCL = 255, ADCH = 3\<rparr>, conv3 = \<lparr>polls = 3, ADCL = 0, ADCH = 255\<rparr>\<rparr>
          \<lparr>angle = 0x4000, ADMUX = 0x23, ADCSRA = 0x83, PORTB = 0, DDRB = 1\<rparr>)
     = snd (loop io_example \<lparr>conv1 = \<lparr>polls = 3, ADCL = 0, ADCH = 2\<rparr>, conv2 = \<lparr>polls = 3, ADCL = 255, ADCH = 3\<rparr>, conv3 = \<lparr>polls = 3, ADCL = 0, ADCH = 255\<rparr>\<rparr>
          \<lparr>angle = 0x4000, ADMUX = 0, ADCSRA = 0xC3, PORTB = 1, DDRB = 1\<rparr>)"
proof -
  let ?inp = "\<lparr>conv1 = \<lparr>polls = 3, ADCL = 0, ADCH = 2\<rparr>, conv2 = \<lparr>polls = 3, ADCL = 255, ADCH = 3\<rparr>, conv3 = \<lparr>polls = 3, ADCL = 0, ADCH = 255\<rparr>\<rparr>"
  let ?s = "\<lparr>angle = 0x4000, ADMUX = 0, ADCSRA = 0xC3, PORTB = 1, DDRB = 1\<rparr>"
  let ?s' = "\<lparr>angle = 0x4000, ADMUX = 0x23, ADCSRA = 0x83, PORTB = 0, DDRB = 1\<rparr>"
  have h: "angle ?s' = angle ?s"
    by simp
  have "\<forall>s'. angle s' = angle ?s \<longrightarrow>
      snd (loop io_example ?inp s') = snd (loop io_example ?inp ?s) \<and>
      angle (fst (loop io_example ?inp s')) = angle (fst (loop io_example ?inp ?s))"
    using loop_carries_only_angle [of ?s io_example ?inp ?s] by (elim conjE)
  then have "angle ?s' = angle ?s \<longrightarrow>
      snd (loop io_example ?inp ?s') = snd (loop io_example ?inp ?s) \<and>
      angle (fst (loop io_example ?inp ?s')) = angle (fst (loop io_example ?inp ?s))"
    by (rule spec)
  from this h have "snd (loop io_example ?inp ?s') = snd (loop io_example ?inp ?s) \<and>
      angle (fst (loop io_example ?inp ?s')) = angle (fst (loop io_example ?inp ?s))"
    by (rule mp)
  then have "snd (loop io_example ?inp ?s') = snd (loop io_example ?inp ?s)"
    by (rule conjunct1)
  with h show ?thesis
    by (rule conjI)
qed

end
